theory Spec2Isabelle
  imports Complex_Main "HOL-Library.AList" "HOL-Library.Multiset" "HOL-Library.Log_Nat"
    "HOL-Library.List_Lexorder" "HOL-Library.Char_ord"
begin

section \<open>Python values\<close>

text \<open>
  A Python \<open>str\<close> is a sequence of Unicode code points.  Listing titles are
  Japanese/English mixed text, so a title is a list of code points; \<open>asc\<close> embeds an
  ASCII literal.  Category names, reasons, labels and ASINs are ASCII and are kept as
  \<open>string\<close>.
\<close>

type_synonym codepoint = nat
type_synonym pystr = "codepoint list"

definition asc :: "string \<Rightarrow> pystr" where
  "asc s = map of_char s"

text \<open>The exceptions that the modelled functions can raise.\<close>

datatype pyerror =
    OverflowError
  | ValueError
  | ZeroDivisionError
  | StatisticsError
  | TypeError
  | HTTPError "nat option"
  | TransportError string

section \<open>Python numbers\<close>

text \<open>
  A Python \<open>int\<close> is an unbounded \<open>int\<close>.  A Python \<open>float\<close> is an IEEE-754
  binary64 value: a finite value (a rational that is representable), an infinity or a
  NaN.  The sign of zero is not modelled; nothing below observes it.
\<close>

datatype pyfloat = Fin rat | PInf | NInf | NaN

text \<open>Rounding to the nearest integer, ties to the even one (Python's \<open>round\<close>).\<close>

definition round_half_even :: "rat \<Rightarrow> int" where
  "round_half_even q =
     (let f = \<lfloor>q\<rfloor>; d = q - of_int f
      in if d < 1 / 2 then f else if 1 / 2 < d then f + 1 else if even f then f else f + 1)"

definition pow2 :: "int \<Rightarrow> rat" where
  "pow2 e = (if 0 \<le> e then 2 ^ nat e else 1 / 2 ^ nat (- e))"

text \<open>\<open>flog2 q\<close> is the integer \<open>k\<close> with \<open>2^k \<le> q < 2^(k+1)\<close>, for \<open>q > 0\<close>.\<close>

definition flog2 :: "rat \<Rightarrow> int" where
  "flog2 q = (if 1 \<le> q then bitlen \<lfloor>q\<rfloor> - 1 else - bitlen (\<lceil>1 / q\<rceil> - 1))"

text \<open>
  \<open>fl q\<close> is the binary64 value nearest to \<open>q\<close> (53 significant bits, ties to even,
  gradual underflow below \<open>2^-1022\<close>, overflow to an infinity): the result of every
  correctly rounded operation whose exact result is \<open>q\<close>.
\<close>

definition fl :: "rat \<Rightarrow> pyfloat" where
  "fl q =
     (if q = 0 then Fin 0
      else let e = max (flog2 \<bar>q\<bar> - 52) (- 1074);
               r = of_int (round_half_even (q / pow2 e)) * pow2 e
           in if 2 ^ 1024 \<le> \<bar>r\<bar> then (if 0 < q then PInf else NInf) else Fin r)"

fun fneg :: "pyfloat \<Rightarrow> pyfloat" where
  "fneg (Fin a) = Fin (- a)"
| "fneg PInf = NInf"
| "fneg NInf = PInf"
| "fneg NaN = NaN"

fun fabs :: "pyfloat \<Rightarrow> pyfloat" where
  "fabs (Fin a) = Fin \<bar>a\<bar>"
| "fabs PInf = PInf"
| "fabs NInf = PInf"
| "fabs NaN = NaN"

fun fsub :: "pyfloat \<Rightarrow> pyfloat \<Rightarrow> pyfloat" where
  "fsub (Fin a) (Fin b) = fl (a - b)"
| "fsub NaN y = NaN"
| "fsub x NaN = NaN"
| "fsub PInf PInf = NaN"
| "fsub NInf NInf = NaN"
| "fsub PInf y = PInf"
| "fsub NInf y = NInf"
| "fsub (Fin a) PInf = NInf"
| "fsub (Fin a) NInf = PInf"

text \<open>The sign of a float as \<open>-1\<close>, \<open>0\<close>, \<open>1\<close>; \<open>None\<close> for NaN.\<close>

fun fsign :: "pyfloat \<Rightarrow> int option" where
  "fsign (Fin a) = Some (sgn \<lfloor>a\<rfloor> + (if \<lfloor>a\<rfloor> = 0 \<and> a \<noteq> 0 then 1 else 0))"
| "fsign PInf = Some 1"
| "fsign NInf = Some (- 1)"
| "fsign NaN = None"

fun fmul :: "pyfloat \<Rightarrow> pyfloat \<Rightarrow> pyfloat" where
  "fmul (Fin a) (Fin b) = fl (a * b)"
| "fmul x y =
     (case (fsign x, fsign y) of
        (Some s, Some t) \<Rightarrow> if s * t = 0 then NaN else if 0 < s * t then PInf else NInf
      | _ \<Rightarrow> NaN)"

text \<open>Division of a float by the literal \<open>1024.0\<close>.\<close>

fun fdiv1024 :: "pyfloat \<Rightarrow> pyfloat" where
  "fdiv1024 (Fin a) = fl (a / 1024)"
| "fdiv1024 x = x"

text \<open>Comparisons; every comparison with a NaN is false.\<close>

fun fgt :: "pyfloat \<Rightarrow> pyfloat \<Rightarrow> bool" where
  "fgt (Fin a) (Fin b) = (b < a)"
| "fgt NaN y = False"
| "fgt x NaN = False"
| "fgt PInf PInf = False"
| "fgt PInf y = True"
| "fgt NInf y = False"
| "fgt (Fin a) PInf = False"
| "fgt (Fin a) NInf = True"

definition flt :: "pyfloat \<Rightarrow> pyfloat \<Rightarrow> bool" where
  "flt x y = fgt y x"

text \<open>An \<open>int\<close> is compared with a \<open>float\<close> by value, without rounding the int.\<close>

fun int_lt_float :: "int \<Rightarrow> pyfloat \<Rightarrow> bool" where
  "int_lt_float p (Fin a) = (of_int p < a)"
| "int_lt_float p PInf = True"
| "int_lt_float p NInf = False"
| "int_lt_float p NaN = False"

fun int_gt_float :: "int \<Rightarrow> pyfloat \<Rightarrow> bool" where
  "int_gt_float p (Fin a) = (a < of_int p)"
| "int_gt_float p PInf = False"
| "int_gt_float p NInf = True"
| "int_gt_float p NaN = False"

text \<open>
  Conversions.  \<open>float(n)\<close> of an int (also implicit in \<open>int * float\<close>) raises
  \<open>OverflowError\<close> when the int is too large; true division of ints is correctly
  rounded and raises when the quotient is too large; \<open>round(x)\<close> and \<open>int(x)\<close> raise
  on an infinity (\<open>OverflowError\<close>) and on a NaN (\<open>ValueError\<close>).
\<close>

definition int_to_float :: "int \<Rightarrow> pyerror + pyfloat" where
  "int_to_float n = (case fl (of_int n) of Fin a \<Rightarrow> Inr (Fin a) | _ \<Rightarrow> Inl OverflowError)"

definition int_mul_float :: "int \<Rightarrow> pyfloat \<Rightarrow> pyerror + pyfloat" where
  "int_mul_float n x = (case int_to_float n of Inl e \<Rightarrow> Inl e | Inr a \<Rightarrow> Inr (fmul a x))"

definition py_truediv :: "int \<Rightarrow> int \<Rightarrow> pyerror + pyfloat" where
  "py_truediv a b =
     (if b = 0 then Inl ZeroDivisionError
      else case fl (of_int a / of_int b) of Fin q \<Rightarrow> Inr (Fin q) | _ \<Rightarrow> Inl OverflowError)"

fun py_round :: "pyfloat \<Rightarrow> pyerror + int" where
  "py_round (Fin a) = Inr (round_half_even a)"
| "py_round PInf = Inl OverflowError"
| "py_round NInf = Inl OverflowError"
| "py_round NaN = Inl ValueError"

fun py_int :: "pyfloat \<Rightarrow> pyerror + int" where
  "py_int (Fin a) = Inr (if 0 \<le> a then \<lfloor>a\<rfloor> else \<lceil>a\<rceil>)"
| "py_int PInf = Inl OverflowError"
| "py_int NInf = Inl OverflowError"
| "py_int NaN = Inl ValueError"

text \<open>
  \<open>round(x, 3)\<close>: the exact value of \<open>x\<close> is rounded to three decimals (ties to
  even) and the decimal is converted back to the nearest float.
\<close>

fun py_round3 :: "pyfloat \<Rightarrow> pyfloat" where
  "py_round3 (Fin a) = fl (of_int (round_half_even (a * 1000)) / 1000)"
| "py_round3 x = x"

section \<open>Rows and deduplication\<close>

text \<open>
  A row is the dict built per listing in \<open>run_scrape_one\<close>.  The columns shared by
  the SSD and the HDD variant are fields; the variant-specific columns live in the
  record extension.  \<open>price_yen\<close> is \<open>None\<close> when no price was extracted.
\<close>

record row =
  asin :: string
  title :: pystr
  price_yen :: "int option"
  sponsored :: nat
  url :: string
  iface :: string
  brand_guess :: string
  category :: string
  reason :: string

text \<open>
  \<open>_dedupe_by_asin\<close>: \<open>best\<close> is an insertion-ordered dict, modelled as an
  association list; \<open>AList.update\<close> overwrites in place or appends, as a Python dict
  does, and \<open>list(best.values())\<close> is \<open>map snd\<close>.
\<close>

definition dedupe_step ::
  "(string \<times> 'a row_scheme) list \<Rightarrow> 'a row_scheme \<Rightarrow> (string \<times> 'a row_scheme) list" where
  "dedupe_step best r =
     (case map_of best (asin r) of
        None \<Rightarrow> AList.update (asin r) r best
      | Some a \<Rightarrow>
          (case (price_yen a, price_yen r) of
             (None, Some pr) \<Rightarrow> AList.update (asin r) r best
           | (Some pa, Some pr) \<Rightarrow> if pr < pa then AList.update (asin r) r best else best
           | (_, None) \<Rightarrow> best))"

definition dedupe_by_asin :: "'a row_scheme list \<Rightarrow> 'a row_scheme list" where
  "dedupe_by_asin rows = map snd (foldl dedupe_step [] rows)"

text \<open>
  The price rule as a relation: \<open>beats r a\<close> holds when a later row \<open>r\<close> replaces
  the stored row \<open>a\<close> (a known price beats an unknown one, a lower price beats a higher).
\<close>

fun price_less :: "int option \<Rightarrow> int option \<Rightarrow> bool" where
  "price_less (Some p) None = True"
| "price_less (Some p) (Some q) = (p < q)"
| "price_less None _ = False"

definition beats :: "'a row_scheme \<Rightarrow> 'a row_scheme \<Rightarrow> bool" where
  "beats r a = price_less (price_yen r) (price_yen a)"

text \<open>The representative that a group of rows (one identifier, input order) ends with.\<close>

definition pick_step :: "'a row_scheme option \<Rightarrow> 'a row_scheme \<Rightarrow> 'a row_scheme option" where
  "pick_step acc r = (case acc of None \<Rightarrow> Some r | Some a \<Rightarrow> if beats r a then Some r else Some a)"

definition pick :: "'a row_scheme list \<Rightarrow> 'a row_scheme option" where
  "pick g = foldl pick_step None g"

definition representative :: "'a row_scheme list \<Rightarrow> string \<Rightarrow> 'a row_scheme option" where
  "representative rows k = List.find (\<lambda>r. asin r = k) (dedupe_by_asin rows)"

text \<open>Two concrete rows of one product: an organic and a sponsored occurrence.\<close>

definition row_a :: row where
  "row_a = \<lparr>asin = ''B0TESTASIN'', title = asc ''SSD 1TB'', price_yen = None, sponsored = 0,
            url = ''https://www.amazon.co.jp/dp/B0TESTASIN'', iface = [], brand_guess = [],
            category = ''drive_internal_sata'', reason = ''generic ssd''\<rparr>"

definition row_b :: row where
  "row_b = row_a\<lparr>sponsored := 1\<rparr>"

section \<open>Retrieval: \<open>fetch_html\<close>\<close>

text \<open>
  The transport (\<open>requests\<close>) is outside the program; what one call of
  \<open>_SESSION.get\<close> inside the \<open>try\<close> block does is an input of the model:
  it returns a response with a status code and a body, or it raises
  \<open>requests.HTTPError\<close> (carrying a response status or none), or it raises some
  other exception.  \<open>resp.raise_for_status()\<close> raises \<open>HTTPError\<close> exactly for
  the statuses 400 to 599.
\<close>

datatype outcome =
    Response nat pystr
  | RaisedHTTPError "nat option"
  | RaisedException string

text \<open>
  What the function does to the outside world, in order: a call of
  \<open>sleep_with_jitter(wait, 0.0)\<close> and a call of \<open>_SESSION.get\<close> as attempt \<open>i\<close>.
\<close>

datatype event = RetrySleep nat | FetchAttempt nat

definition retry_statuses :: "nat list" where
  "retry_statuses = [408, 429, 503, 504]"

text \<open>
  The \<open>for i, wait in enumerate(sleep_retry, start=1)\<close> loop.  \<open>env i\<close> is the
  outcome of attempt \<open>i\<close>; \<open>last_err\<close> and the trace are threaded through.  After
  the loop \<open>raise last_err\<close> raises the stored exception; with an empty
  \<open>sleep_retry\<close> it is \<open>raise None\<close>, a \<open>TypeError\<close>.
\<close>

fun fetch_loop ::
  "(nat \<Rightarrow> outcome) \<Rightarrow> (nat \<times> nat) list \<Rightarrow> pyerror option \<Rightarrow> event list
     \<Rightarrow> (pyerror + pystr) \<times> event list" where
  "fetch_loop env [] last_err tr =
     (case last_err of None \<Rightarrow> (Inl TypeError, tr) | Some e \<Rightarrow> (Inl e, tr))"
| "fetch_loop env ((i, wait) # rest) last_err tr =
     (let tr1 = (if wait \<noteq> 0 then tr @ [RetrySleep wait] else tr);
          tr2 = tr1 @ [FetchAttempt i]
      in case env i of
           Response status body \<Rightarrow>
             if status \<in> set retry_statuses
             then fetch_loop env rest (Some (HTTPError (Some status))) tr2
             else if 400 \<le> status \<and> status < 600
             then (Inl (HTTPError (Some status)), tr2)
             else (Inr body, tr2)
         | RaisedHTTPError resp \<Rightarrow>
             (let code = (case resp of None \<Rightarrow> 0 | Some c \<Rightarrow> c)
              in if code \<in> set retry_statuses
                 then fetch_loop env rest (Some (HTTPError resp)) tr2
                 else (Inl (HTTPError resp), tr2))
         | RaisedException e \<Rightarrow> fetch_loop env rest (Some (TransportError e)) tr2)"

definition fetch_html :: "(nat \<Rightarrow> outcome) \<Rightarrow> nat list \<Rightarrow> (pyerror + pystr) \<times> event list" where
  "fetch_html env sleep_retry = fetch_loop env (zip [1 ..< Suc (length sleep_retry)] sleep_retry) None []"

definition default_sleep_retry :: "nat list" where
  "default_sleep_retry = [0, 2, 5, 9]"

text \<open>
  The retry policy in the words of the specification, for comparison: an outcome is
  retryable when it is one of the statuses 408, 429, 503, 504 or a transport-level
  exception; every outcome that is not a successful response is a failure.
\<close>

definition retryable :: "outcome \<Rightarrow> bool" where
  "retryable oc =
     (case oc of
        Response status body \<Rightarrow> status = 408 \<or> status = 429 \<or> status = 503 \<or> status = 504
      | RaisedHTTPError resp \<Rightarrow> resp = Some 408 \<or> resp = Some 429 \<or> resp = Some 503 \<or> resp = Some 504
      | RaisedException e \<Rightarrow> True)"

definition final_result :: "outcome \<Rightarrow> pyerror + pystr" where
  "final_result oc =
     (case oc of
        Response status body \<Rightarrow>
          if 400 \<le> status \<and> status < 600 then Inl (HTTPError (Some status)) else Inr body
      | RaisedHTTPError resp \<Rightarrow> Inl (HTTPError resp)
      | RaisedException e \<Rightarrow> Inl (TransportError e))"

definition attempts :: "event list \<Rightarrow> nat" where
  "attempts tr = length (filter (\<lambda>ev. case ev of FetchAttempt i \<Rightarrow> True | RetrySleep w \<Rightarrow> False) tr)"

definition schedule :: "nat \<Rightarrow> event list" where
  "schedule n = take (2 * n - 1)
     [FetchAttempt 1, RetrySleep 2, FetchAttempt 2, RetrySleep 5, FetchAttempt 3,
      RetrySleep 9, FetchAttempt 4]"

definition fetch_policy :: "(nat \<Rightarrow> outcome) \<Rightarrow> (pyerror + pystr) \<times> event list" where
  "fetch_policy env =
     (if \<not> retryable (env 1) then (final_result (env 1), schedule 1)
      else if \<not> retryable (env 2) then (final_result (env 2), schedule 2)
      else if \<not> retryable (env 3) then (final_result (env 3), schedule 3)
      else (final_result (env 4), schedule 4))"

text \<open>Two concrete runs: a 503, a connection error and then a 404; and four times 429.\<close>

definition env_mixed :: "nat \<Rightarrow> outcome" where
  "env_mixed i =
     (if i = 1 then Response 503 []
      else if i = 2 then RaisedException ''ConnectionError''
      else if i = 3 then Response 404 []
      else Response 200 (asc ''<html></html>''))"

definition env_throttled :: "nat \<Rightarrow> outcome" where
  "env_throttled i = (if i = 4 then Response 429 (asc ''last'') else Response 429 [])"

section \<open>Statistics and the price outlier filter\<close>

text \<open>The \<open>int\<close> entries of a list of optional prices (\<open>isinstance(p, int)\<close>).\<close>

fun ints_of :: "int option list \<Rightarrow> int list" where
  "ints_of [] = []"
| "ints_of (None # xs) = ints_of xs"
| "ints_of (Some p # xs) = p # ints_of xs"

fun py_min :: "int list \<Rightarrow> int" where
  "py_min [] = 0"
| "py_min (x # xs) = fold min xs x"

fun py_max :: "int list \<Rightarrow> int" where
  "py_max [] = 0"
| "py_max (x # xs) = fold max xs x"

text \<open>
  \<open>stats_summary\<close>: \<open>None\<close> for no prices, else
  \<open>(min(ps), int(round(sum(ps) / len(ps))), max(ps))\<close>.  The division is Python's true
  division of ints, the rounding is \<open>round\<close> on the resulting float.
\<close>

definition stats_summary :: "int option list \<Rightarrow> pyerror + (int \<times> int \<times> int) option" where
  "stats_summary prices =
     (let ps = ints_of prices
      in if ps = [] then Inr None
         else case py_truediv (sum_list ps) (int (length ps)) of
                Inl e \<Rightarrow> Inl e
              | Inr q \<Rightarrow>
                  (case py_round q of
                     Inl e \<Rightarrow> Inl e
                   | Inr avg \<Rightarrow> Inr (Some (py_min ps, avg, py_max ps))))"

text \<open>
  \<open>statistics.median\<close> of the standard library: the middle element of the sorted data,
  or \<open>(data[i - 1] + data[i]) / 2\<close> (a float) for an even number of elements.
\<close>

datatype pynum = PyInt int | PyFloat pyfloat

definition statistics_median :: "int list \<Rightarrow> pyerror + pynum" where
  "statistics_median vs =
     (let data = sort vs; n = length data
      in if n = 0 then Inl StatisticsError
         else if n mod 2 = 1 then Inr (PyInt (data ! (n div 2)))
         else let i = n div 2
              in case py_truediv (data ! (i - 1) + data ! i) 2 of
                   Inl e \<Rightarrow> Inl e
                 | Inr q \<Rightarrow> Inr (PyFloat q))"

fun py_round_num :: "pynum \<Rightarrow> pyerror + int" where
  "py_round_num (PyInt n) = Inr n"
| "py_round_num (PyFloat x) = py_round x"

definition calc_median :: "int list \<Rightarrow> pyerror + int" where
  "calc_median vs =
     (if vs = [] then Inr 0
      else case statistics_median vs of Inl e \<Rightarrow> Inl e | Inr m \<Rightarrow> py_round_num m)"

text \<open>
  The tail of \<open>run_scrape_one\<close> after deduplication.  First the rows of a valid drive
  category are retained (all rows in raw mode).
\<close>

definition starts_with :: "string \<Rightarrow> string \<Rightarrow> bool" where
  "starts_with s p = (take (length p) s = p)"

definition retain_drives :: "bool \<Rightarrow> 'a row_scheme list \<Rightarrow> 'a row_scheme list" where
  "retain_drives raw rows = filter (\<lambda>r. raw \<or> starts_with (category r) ''drive_'') rows"

text \<open>
  Then the outlier filter.  The loop over \<open>filtered\<close> carries \<open>new_filtered\<close>,
  \<open>removed_low\<close> and \<open>removed_high\<close>.
\<close>

fun outlier_loop ::
  "pyfloat \<Rightarrow> pyfloat \<Rightarrow> 'a row_scheme list \<Rightarrow> 'a row_scheme list \<times> nat \<times> nat
     \<Rightarrow> 'a row_scheme list \<times> nat \<times> nat" where
  "outlier_loop thresh_low thresh_high [] acc = acc"
| "outlier_loop thresh_low thresh_high (r # rs) (new_filtered, removed_low, removed_high) =
     (case price_yen r of
        Some p \<Rightarrow>
          if int_lt_float p thresh_low
          then outlier_loop thresh_low thresh_high rs (new_filtered, removed_low + 1, removed_high)
          else if int_gt_float p thresh_high
          then outlier_loop thresh_low thresh_high rs (new_filtered, removed_low, removed_high + 1)
          else outlier_loop thresh_low thresh_high rs (new_filtered @ [r], removed_low, removed_high)
      | None \<Rightarrow>
          outlier_loop thresh_low thresh_high rs (new_filtered @ [r], removed_low, removed_high))"

definition outlier_filter ::
  "bool \<Rightarrow> pyfloat \<Rightarrow> pyfloat \<Rightarrow> 'a row_scheme list \<Rightarrow> pyerror + 'a row_scheme list" where
  "outlier_filter raw low_price_ratio high_price_ratio filtered =
     (if \<not> raw \<and> filtered \<noteq> [] then
        (let valid_prices = ints_of (map price_yen filtered)
         in if valid_prices \<noteq> [] then
              (case calc_median valid_prices of
                 Inl e \<Rightarrow> Inl e
               | Inr median_price \<Rightarrow>
                   (case int_mul_float median_price low_price_ratio of
                      Inl e \<Rightarrow> Inl e
                    | Inr thresh_low \<Rightarrow>
                        (case int_mul_float median_price high_price_ratio of
                           Inl e \<Rightarrow> Inl e
                         | Inr thresh_high \<Rightarrow>
                             Inr (fst (outlier_loop thresh_low thresh_high filtered ([], 0, 0))))))
            else Inr filtered)
      else Inr filtered)"

text \<open>The default ratios: the floats written \<open>0.3\<close> and \<open>2.5\<close>.\<close>

definition PRICE_LOWER_LIMIT_RATIO :: pyfloat where
  "PRICE_LOWER_LIMIT_RATIO = fl (3 / 10)"

definition PRICE_UPPER_LIMIT_RATIO :: pyfloat where
  "PRICE_UPPER_LIMIT_RATIO = fl (5 / 2)"

text \<open>
  The summary lines.  The \<open>ALL\<close> line is printed when \<open>stats_summary\<close> of the known
  prices is not \<open>None\<close>; it carries min, avg, max and the number of prices.
  \<open>_print_group\<close> collects the known prices per label in a dict and prints one such
  line per label, labels ascending; \<open>lab\<close> gives the label of a row (the stripped
  text of the keyed column, or \<open>Unknown\<close>).
\<close>

definition all_line :: "'a row_scheme list \<Rightarrow> pyerror + ((int \<times> int \<times> int) \<times> nat) option" where
  "all_line filtered =
     (let prices_all = ints_of (map price_yen filtered)
      in case stats_summary (map Some prices_all) of
           Inl e \<Rightarrow> Inl e
         | Inr None \<Rightarrow> Inr None
         | Inr (Some s) \<Rightarrow> Inr (Some (s, length prices_all)))"

definition group_prices :: "('a row_scheme \<Rightarrow> string) \<Rightarrow> 'a row_scheme list \<Rightarrow> (string \<times> int list) list" where
  "group_prices lab filtered =
     foldl (\<lambda>groups rr.
              case price_yen rr of
                Some p \<Rightarrow>
                  AList.update (lab rr)
                    ((case map_of groups (lab rr) of None \<Rightarrow> [] | Some ps \<Rightarrow> ps) @ [p]) groups
              | None \<Rightarrow> groups)
       [] filtered"

fun group_lines ::
  "(string \<times> int list) list \<Rightarrow> pyerror + (string \<times> (int \<times> int \<times> int) \<times> nat) list" where
  "group_lines [] = Inr []"
| "group_lines ((label, ps) # rest) =
     (case stats_summary (map Some ps) of
        Inl e \<Rightarrow> Inl e
      | Inr sm \<Rightarrow>
          (case group_lines rest of
             Inl e \<Rightarrow> Inl e
           | Inr ls \<Rightarrow>
               (case sm of None \<Rightarrow> Inr ls | Some s \<Rightarrow> Inr ((label, s, length ps) # ls))))"

definition print_group ::
  "('a row_scheme \<Rightarrow> string) \<Rightarrow> 'a row_scheme list
     \<Rightarrow> pyerror + (string \<times> (int \<times> int \<times> int) \<times> nat) list" where
  "print_group lab filtered = group_lines (sort_key fst (group_prices lab filtered))"

text \<open>
  For comparison, in the words of the specification: the exact median of a list of
  integers, rounding half up, and the exact arithmetic mean.
\<close>

definition median_exact :: "int list \<Rightarrow> rat" where
  "median_exact vs =
     (let data = sort vs; n = length data
      in if odd n then of_int (data ! (n div 2))
         else (of_int (data ! (n div 2 - 1)) + of_int (data ! (n div 2))) / 2)"

definition round_half_up :: "rat \<Rightarrow> int" where
  "round_half_up q = \<lfloor>q + 1 / 2\<rfloor>"

definition mean :: "int list \<Rightarrow> rat" where
  "mean ps = of_int (sum_list ps) / of_int (length ps)"

text \<open>The rows that the outlier filter keeps for given thresholds.\<close>

definition kept_by :: "pyfloat \<Rightarrow> pyfloat \<Rightarrow> 'a row_scheme \<Rightarrow> bool" where
  "kept_by thresh_low thresh_high r =
     (case price_yen r of
        None \<Rightarrow> True
      | Some p \<Rightarrow> \<not> int_lt_float p thresh_low \<and> \<not> int_gt_float p thresh_high)"

text \<open>Rows with given prices, for the examples.\<close>

definition priced :: "int option \<Rightarrow> row" where
  "priced p = row_a\<lparr>price_yen := p\<rparr>"

definition rows_of :: "int option list \<Rightarrow> row list" where
  "rows_of ps = map priced ps"

definition label_prices :: "('a row_scheme \<Rightarrow> string) \<Rightarrow> 'a row_scheme list \<Rightarrow> string \<Rightarrow> int list" where
  "label_prices lab rows l = ints_of (map price_yen (filter (\<lambda>r. lab r = l) rows))"

section \<open>Deduplication: proofs\<close>

lemma price_less_irrefl: "\<not> price_less a a"
  by (cases a) auto

lemma price_less_trans: "price_less a b \<Longrightarrow> price_less b c \<Longrightarrow> price_less a c"
  by (cases a; cases b; cases c) auto

lemma price_less_negtrans: "price_less a b \<Longrightarrow> \<not> price_less c b \<Longrightarrow> price_less a c"
  by (cases a; cases b; cases c) auto

lemma price_less_asym: "price_less a b \<Longrightarrow> \<not> price_less b a"
  by (cases a; cases b) auto

lemma price_less_total: "\<not> price_less a b \<Longrightarrow> \<not> price_less b a \<Longrightarrow> a = b"
  by (cases a; cases b) auto

lemma dedupe_step_alt:
  "dedupe_step best r =
     (if (case map_of best (asin r) of None \<Rightarrow> True | Some a \<Rightarrow> beats r a)
      then AList.update (asin r) r best else best)"
  by (auto simp: dedupe_step_def beats_def split: option.splits)

lemma pick_snoc: "pick (g @ [r]) = pick_step (pick g) r"
  by (simp add: pick_def)

lemma pick_Nil: "pick [] = None"
  by (simp add: pick_def)

lemma pick_eq_None: "pick g = None \<longleftrightarrow> g = []"
  by (induction g rule: rev_induct) (auto simp: pick_snoc pick_Nil pick_step_def split: option.splits)

lemma dedupe_fold_inv:
  "distinct (map fst (foldl dedupe_step [] rows)) \<and>
   (\<forall>k. map_of (foldl dedupe_step [] rows) k = pick (filter (\<lambda>r. asin r = k) rows))"
proof (induction rows rule: rev_induct)
  case Nil
  show ?case by (simp add: pick_Nil)
next
  case (snoc x xs)
  let ?b = "foldl dedupe_step [] xs"
  have d: "distinct (map fst ?b)" and m: "\<And>k. map_of ?b k = pick (filter (\<lambda>r. asin r = k) xs)"
    using snoc by auto
  have step: "foldl dedupe_step [] (xs @ [x]) = dedupe_step ?b x" by simp
  have "distinct (map fst (dedupe_step ?b x))"
    using d by (simp add: dedupe_step_alt distinct_update)
  moreover have "map_of (dedupe_step ?b x) k = pick (filter (\<lambda>r. asin r = k) (xs @ [x]))" for k
  proof (cases "asin x = k")
    case True
    then show ?thesis
      using m[of k]
      by (auto simp: dedupe_step_alt update_conv' pick_snoc pick_step_def split: option.splits)
  next
    case False
    then show ?thesis
      using m[of k] by (auto simp: dedupe_step_alt update_conv')
  qed
  ultimately show ?case unfolding step by blast
qed

lemma fold_distinct: "distinct (map fst (foldl dedupe_step [] rows))"
  using dedupe_fold_inv[of rows] by blast

lemma fold_map_of: "map_of (foldl dedupe_step [] rows) k = pick (filter (\<lambda>r. asin r = k) rows)"
  using dedupe_fold_inv[of rows] by blast

lemma pick_asin:
  "pick g = Some r \<Longrightarrow> r \<in> set g"
  by (induction g arbitrary: r rule: rev_induct)
     (auto simp: pick_snoc pick_Nil pick_step_def split: option.splits if_splits)

lemma pick_decomp:
  "pick g = Some r \<Longrightarrow>
     \<exists>ys zs. g = ys @ r # zs \<and> (\<forall>y\<in>set ys. beats r y) \<and> (\<forall>z\<in>set zs. \<not> beats z r)"
proof (induction g arbitrary: r rule: rev_induct)
  case Nil
  then show ?case by (simp add: pick_Nil)
next
  case (snoc x xs)
  show ?case
  proof (cases "pick xs")
    case None
    then have "xs = []" by (simp add: pick_eq_None)
    with snoc.prems have "r = x" by (simp add: pick_def pick_step_def)
    with \<open>xs = []\<close> show ?thesis
      by (intro exI[of _ "[]"]) simp
  next
    case (Some a)
    from snoc.IH[OF Some] obtain ys zs where
      g: "xs = ys @ a # zs" and b: "\<forall>y\<in>set ys. beats a y" and nb: "\<forall>z\<in>set zs. \<not> beats z a"
      by blast
    show ?thesis
    proof (cases "beats x a")
      case True
      with Some snoc.prems have rx: "r = x" by (simp add: pick_snoc pick_step_def)
      have "\<forall>y\<in>set xs. beats x y"
        using True b nb g
        by (auto simp: beats_def intro: price_less_trans price_less_negtrans)
      then show ?thesis using rx by (intro exI[of _ xs] exI[of _ "[]"]) simp
    next
      case False
      with Some snoc.prems have ra: "r = a" by (simp add: pick_snoc pick_step_def)
      show ?thesis
        using g b nb False ra
        by (intro exI[of _ ys] exI[of _ "zs @ [x]"]) auto
    qed
  qed
qed

lemma find_map_of_distinct:
  "distinct (map fst al) \<Longrightarrow> \<forall>(k, v)\<in>set al. f v = k \<Longrightarrow>
     List.find (\<lambda>r. f r = k) (map snd al) = map_of al k"
  by (induction al) (auto simp: rev_image_eqI)

lemma fold_values_key:
  "(k, v) \<in> set (foldl dedupe_step [] rows) \<Longrightarrow> asin v = k"
proof -
  assume a: "(k, v) \<in> set (foldl dedupe_step [] rows)"
  have "map_of (foldl dedupe_step [] rows) k = Some v"
    using a map_of_eq_Some_iff[OF fold_distinct] by blast
  then have "pick (filter (\<lambda>r. asin r = k) rows) = Some v"
    by (simp add: fold_map_of)
  from pick_asin[OF this] show ?thesis by simp
qed

lemma representative_pick:
  "representative rows k = pick (filter (\<lambda>r. asin r = k) rows)"
proof -
  have "List.find (\<lambda>r. asin r = k) (map snd (foldl dedupe_step [] rows)) = map_of (foldl dedupe_step [] rows) k"
    by (rule find_map_of_distinct) (use fold_distinct fold_values_key in auto)
  then show ?thesis
    by (simp add: representative_def dedupe_by_asin_def fold_map_of)
qed

lemma mem_dedupe_iff:
  "r \<in> set (dedupe_by_asin rows) \<longleftrightarrow> pick (filter (\<lambda>x. asin x = asin r) rows) = Some r"
proof
  assume "r \<in> set (dedupe_by_asin rows)"
  then obtain k where kv: "(k, r) \<in> set (foldl dedupe_step [] rows)"
    by (auto simp: dedupe_by_asin_def)
  then have "asin r = k" by (rule fold_values_key)
  moreover have "map_of (foldl dedupe_step [] rows) k = Some r"
    using kv map_of_eq_Some_iff[OF fold_distinct] by blast
  ultimately show "pick (filter (\<lambda>x. asin x = asin r) rows) = Some r"
    by (simp add: fold_map_of)
next
  assume "pick (filter (\<lambda>x. asin x = asin r) rows) = Some r"
  then have "map_of (foldl dedupe_step [] rows) (asin r) = Some r"
    by (simp add: fold_map_of)
  then have "(asin r, r) \<in> set (foldl dedupe_step [] rows)"
    by (rule map_of_SomeD)
  then show "r \<in> set (dedupe_by_asin rows)"
    by (force simp: dedupe_by_asin_def)
qed

lemma distinct_asin_dedupe: "distinct (map asin (dedupe_by_asin rows))"
proof -
  have "map asin (dedupe_by_asin rows) = map fst (foldl dedupe_step [] rows)"
    using fold_values_key[of _ _ rows] by (auto simp: dedupe_by_asin_def)
  then show ?thesis using fold_distinct[of rows] by simp
qed

lemma rep_in_rows: "r \<in> set (dedupe_by_asin rows) \<Longrightarrow> r \<in> set rows"
  using pick_asin[of "filter (\<lambda>x. asin x = asin r) rows" r] by (simp add: mem_dedupe_iff)

lemma rep_decomp:
  "r \<in> set (dedupe_by_asin rows) \<Longrightarrow>
     \<exists>ys zs. filter (\<lambda>x. asin x = asin r) rows = ys @ r # zs \<and>
        (\<forall>y\<in>set ys. beats r y) \<and> (\<forall>z\<in>set zs. \<not> beats z r)"
  by (simp add: mem_dedupe_iff pick_decomp)

lemma rep_unbeaten:
  assumes "r \<in> set (dedupe_by_asin rows)" "x \<in> set rows" "asin x = asin r"
  shows "\<not> beats x r"
proof -
  from rep_decomp[OF assms(1)] obtain ys zs where
    g: "filter (\<lambda>x. asin x = asin r) rows = ys @ r # zs"
    and b: "\<forall>y\<in>set ys. beats r y" and nb: "\<forall>z\<in>set zs. \<not> beats z r" by blast
  have "x \<in> set (filter (\<lambda>x. asin x = asin r) rows)" using assms by simp
  then have "x \<in> set ys \<or> x = r \<or> x \<in> set zs" unfolding g by auto
  then show ?thesis
    using b nb by (auto simp: beats_def price_less_irrefl dest: price_less_asym)
qed

lemma rep_exists:
  assumes "x \<in> set rows"
  shows "\<exists>r\<in>set (dedupe_by_asin rows). asin r = asin x"
proof -
  have "filter (\<lambda>y. asin y = asin x) rows \<noteq> []"
    using assms by (auto simp: filter_empty_conv)
  then obtain r where p: "pick (filter (\<lambda>y. asin y = asin x) rows) = Some r"
    using pick_eq_None[of "filter (\<lambda>y. asin y = asin x) rows"] by (cases "pick (filter (\<lambda>y. asin y = asin x) rows)") auto
  from pick_asin[OF p] have ax: "asin r = asin x" by simp
  with p have "r \<in> set (dedupe_by_asin rows)" by (simp add: mem_dedupe_iff)
  with ax show ?thesis by blast
qed

lemma representative_Some_iff:
  "representative rows k = Some r \<longleftrightarrow> r \<in> set (dedupe_by_asin rows) \<and> asin r = k"
proof
  assume a: "representative rows k = Some r"
  then have p: "pick (filter (\<lambda>x. asin x = k) rows) = Some r" by (simp add: representative_pick)
  from pick_asin[OF p] have "asin r = k" by simp
  with p show "r \<in> set (dedupe_by_asin rows) \<and> asin r = k" by (simp add: mem_dedupe_iff)
next
  assume "r \<in> set (dedupe_by_asin rows) \<and> asin r = k"
  then show "representative rows k = Some r" by (auto simp: representative_pick mem_dedupe_iff)
qed

lemma representative_None_iff:
  "representative rows k = None \<longleftrightarrow> k \<notin> asin ` set rows"
  by (auto simp: representative_pick pick_eq_None filter_empty_conv)

lemma dedupe_pair_tie:
  "asin a = asin b \<Longrightarrow> \<not> beats b a \<Longrightarrow> dedupe_by_asin [a, b] = [a]"
  by (simp add: dedupe_by_asin_def dedupe_step_alt)

lemma dedupe_pair_beats:
  "asin a = asin b \<Longrightarrow> beats b a \<Longrightarrow> dedupe_by_asin [a, b] = [b]"
  by (simp add: dedupe_by_asin_def dedupe_step_alt)

subsection \<open>Claim C4: one representative per identifier, the best observed offer\<close>

text \<open>
  Claim C4.  For every list of rows, \<open>_dedupe_by_asin\<close> keeps exactly one row per
  identifier that occurs in the input (the identifiers of the output are distinct and are
  exactly those of the input, and every kept row is an input row); the kept row has a
  known price whenever some row of its group has one, and its price is not above any
  known price of the group.  For two rows of one identifier, one priced 5000 and one
  without price, the priced row is kept in either input order.
\<close>

theorem dedupe_keeps_best_offer:
  "distinct (map asin (dedupe_by_asin (rows :: 'a row_scheme list))) \<and>
   asin ` set (dedupe_by_asin rows) = asin ` set rows \<and>
   set (dedupe_by_asin rows) \<subseteq> set rows \<and>
   (\<forall>r\<in>set (dedupe_by_asin rows). \<forall>x\<in>set rows. asin x = asin r \<longrightarrow>
       (price_yen x \<noteq> None \<longrightarrow> price_yen r \<noteq> None) \<and>
       (\<forall>p. price_yen x = Some p \<longrightarrow> (\<exists>q. price_yen r = Some q \<and> q \<le> p))) \<and>
   (\<forall>a (b :: 'a row_scheme). asin a = asin b \<and> price_yen a = Some 5000 \<and> price_yen b = None \<longrightarrow>
       dedupe_by_asin [a, b] = [a] \<and> dedupe_by_asin [b, a] = [a])"
proof -
  have 1: "distinct (map asin (dedupe_by_asin rows))" by (rule distinct_asin_dedupe)
  have 2: "asin ` set (dedupe_by_asin rows) = asin ` set rows"
  proof
    show "asin ` set (dedupe_by_asin rows) \<subseteq> asin ` set rows"
      using rep_in_rows[of _ rows] by blast
    show "asin ` set rows \<subseteq> asin ` set (dedupe_by_asin rows)"
    proof
      fix k assume "k \<in> asin ` set rows"
      then obtain x where "x \<in> set rows" "k = asin x" by blast
      with rep_exists[of x rows] show "k \<in> asin ` set (dedupe_by_asin rows)"
        by (metis image_eqI)
    qed
  qed
  have 3: "set (dedupe_by_asin rows) \<subseteq> set rows" using rep_in_rows by blast
  have 4: "(price_yen x \<noteq> None \<longrightarrow> price_yen r \<noteq> None) \<and>
       (\<forall>p. price_yen x = Some p \<longrightarrow> (\<exists>q. price_yen r = Some q \<and> q \<le> p))"
    if a: "r \<in> set (dedupe_by_asin rows)" "x \<in> set rows" "asin x = asin r" for r x
  proof -
    from rep_unbeaten[OF a] have nb: "\<not> price_less (price_yen x) (price_yen r)"
      by (simp add: beats_def)
    then show ?thesis by (cases "price_yen x"; cases "price_yen r") auto
  qed
  have 5: "dedupe_by_asin [a, b] = [a] \<and> dedupe_by_asin [b, a] = [a]"
    if h: "asin a = asin b \<and> price_yen a = Some 5000 \<and> price_yen b = None" for a b :: "'a row_scheme"
    using h dedupe_pair_tie[of a b] dedupe_pair_beats[of b a] by (auto simp: beats_def)
  show ?thesis using 1 2 3 4 5 by blast
qed

theorem dedupe_keeps_best_offer_witness:
  "dedupe_by_asin [row_a\<lparr>price_yen := Some 5000\<rparr>, row_b] = [row_a\<lparr>price_yen := Some 5000\<rparr>] \<and>
   dedupe_by_asin [row_b, row_a\<lparr>price_yen := Some 5000\<rparr>] = [row_a\<lparr>price_yen := Some 5000\<rparr>]"
  using dedupe_keeps_best_offer[of "[]::row list"]
  by (simp add: row_a_def row_b_def)

subsection \<open>Claim C5: order of presentation\<close>

text \<open>
  Claim C5, as amended.  For two input lists that are permutations of each other and every
  identifier, the representatives chosen by \<open>_dedupe_by_asin\<close> carry the same price
  (known or unknown); they are the same row whenever the rows of that identifier that no
  other row of the group beats, and that share one price, are all equal.  The row itself
  is not order-independent in general: on a tie the first row in input order stays.
\<close>

theorem dedupe_order_independent_price:
  assumes "mset rows = mset rows'"
  shows "map_option price_yen (representative rows k) = map_option price_yen (representative rows' k) \<and>
     ((\<forall>x\<in>set rows. \<forall>y\<in>set rows. asin x = k \<and> asin y = k \<and> price_yen x = price_yen y \<and>
          (\<forall>z\<in>set rows. asin z = k \<longrightarrow> \<not> beats z x) \<longrightarrow> x = y) \<longrightarrow>
      representative rows k = representative rows' k)"
proof -
  have s: "set rows = set rows'" using assms by (rule mset_eq_setD)
  show ?thesis
  proof (cases "k \<in> asin ` set rows")
    case False
    then have "representative rows k = None" "representative rows' k = None"
      using s by (simp_all add: representative_None_iff)
    then show ?thesis by simp
  next
    case True
    then obtain r where r: "representative rows k = Some r"
      using representative_None_iff[of rows k] by (cases "representative rows k") auto
    from True s obtain r' where r': "representative rows' k = Some r'"
      using representative_None_iff[of rows' k] by (cases "representative rows' k") auto
    from r have rin: "r \<in> set (dedupe_by_asin rows)" "asin r = k" by (simp_all add: representative_Some_iff)
    from r' have rin': "r' \<in> set (dedupe_by_asin rows')" "asin r' = k" by (simp_all add: representative_Some_iff)
    have m: "r \<in> set rows" "r' \<in> set rows" using rin rin' rep_in_rows s by blast+
    have "\<not> beats r' r" using rep_unbeaten[OF rin(1) m(2)] rin rin' by simp
    moreover have "\<not> beats r r'" using rep_unbeaten[OF rin'(1)] m(1) s rin rin' by simp
    ultimately have pe: "price_yen r = price_yen r'"
      by (simp add: beats_def price_less_total)
    have ub: "\<forall>z\<in>set rows. asin z = k \<longrightarrow> \<not> beats z r"
      using rep_unbeaten[OF rin(1)] rin by simp
    show ?thesis using r r' pe ub m rin rin' by auto
  qed
qed

theorem dedupe_order_independent_price_witness:
  "map_option price_yen (representative [row_a, row_b] ''B0TESTASIN'') =
   map_option price_yen (representative [row_b, row_a] ''B0TESTASIN'') \<and>
   representative [row_a\<lparr>price_yen := Some 5000\<rparr>, row_b] ''B0TESTASIN'' =
   representative [row_b, row_a\<lparr>price_yen := Some 5000\<rparr>] ''B0TESTASIN''"
proof -
  have 1: "mset [row_a, row_b] = mset [row_b, row_a]" by simp
  have 2: "mset [row_a\<lparr>price_yen := Some 5000\<rparr>, row_b] = mset [row_b, row_a\<lparr>price_yen := Some 5000\<rparr>]" by simp
  have 3: "\<forall>x\<in>set [row_a\<lparr>price_yen := Some 5000\<rparr>, row_b]. \<forall>y\<in>set [row_a\<lparr>price_yen := Some 5000\<rparr>, row_b].
     asin x = ''B0TESTASIN'' \<and> asin y = ''B0TESTASIN'' \<and> price_yen x = price_yen y \<and>
          (\<forall>z\<in>set [row_a\<lparr>price_yen := Some 5000\<rparr>, row_b]. asin z = ''B0TESTASIN'' \<longrightarrow> \<not> beats z x) \<longrightarrow> x = y"
    by (simp add: row_a_def row_b_def beats_def)
  show ?thesis
    using dedupe_order_independent_price[OF 1, of "''B0TESTASIN''"]
          dedupe_order_independent_price[OF 2, of "''B0TESTASIN''"] 3
    by blast
qed

text \<open>
  The claim as stated fails: two rows of one identifier with the same (unknown) price that
  differ in the sponsored flag; each input order keeps a different row.
\<close>

theorem dedupe_order_counterexample:
  "mset [row_a, row_b] = mset [row_b, row_a] \<and>
   representative [row_a, row_b] ''B0TESTASIN'' = Some row_a \<and>
   representative [row_b, row_a] ''B0TESTASIN'' = Some row_b \<and>
   row_a \<noteq> row_b"
  by (simp add: representative_def dedupe_by_asin_def dedupe_step_def row_a_def row_b_def)

subsection \<open>Claim C10: ties keep the first row\<close>

text \<open>
  Claim C10.  When the dict already holds a row for the identifier and the new row does not
  beat it (both prices unknown, or the new price unknown, or not lower), one step of the loop
  leaves the dict unchanged, so appending such a row does not change the output.  Every
  kept row is preceded, within its identifier group, only by rows that it strictly beats,
  and followed only by rows that do not beat it: among tying rows the first in input order
  is the one kept.  In particular two rows of one identifier neither of which beats the
  other reduce to the first.
\<close>

theorem dedupe_tie_keeps_first:
  "(\<forall>(best :: (string \<times> 'a row_scheme) list) r a. map_of best (asin r) = Some a \<and> \<not> beats r a \<longrightarrow> dedupe_step best r = best) \<and>
   (\<forall>r a. representative (rows :: 'a row_scheme list) (asin r) = Some a \<and> \<not> beats r a \<longrightarrow>
        dedupe_by_asin (rows @ [r]) = dedupe_by_asin rows) \<and>
   (\<forall>r\<in>set (dedupe_by_asin rows). \<exists>ys zs.
        filter (\<lambda>x. asin x = asin r) rows = ys @ r # zs \<and>
        (\<forall>y\<in>set ys. beats r y) \<and> (\<forall>z\<in>set zs. \<not> beats z r)) \<and>
   (\<forall>x (y :: 'a row_scheme). asin x = asin y \<and> \<not> beats x y \<and> \<not> beats y x \<longrightarrow>
        dedupe_by_asin [x, y] = [x])"
proof -
  have 1: "dedupe_step best r = best"
    if "map_of best (asin r) = Some a \<and> \<not> beats r a"
    for best :: "(string \<times> 'a row_scheme) list" and r a
    using that by (simp add: dedupe_step_alt)
  have 2: "dedupe_by_asin (rows @ [r]) = dedupe_by_asin rows"
    if h: "representative rows (asin r) = Some a \<and> \<not> beats r a" for r a
  proof -
    from h have "map_of (foldl dedupe_step [] rows) (asin r) = Some a"
      by (simp add: representative_pick fold_map_of)
    with h have "dedupe_step (foldl dedupe_step [] rows) r = foldl dedupe_step [] rows"
      by (simp add: dedupe_step_alt)
    then show ?thesis by (simp add: dedupe_by_asin_def)
  qed
  have 3: "\<exists>ys zs. filter (\<lambda>x. asin x = asin r) rows = ys @ r # zs \<and>
        (\<forall>y\<in>set ys. beats r y) \<and> (\<forall>z\<in>set zs. \<not> beats z r)"
    if "r \<in> set (dedupe_by_asin rows)" for r
    using that by (rule rep_decomp)
  have 4: "dedupe_by_asin [x, y] = [x]"
    if "asin x = asin y \<and> \<not> beats x y \<and> \<not> beats y x" for x y :: "'a row_scheme"
    using that dedupe_pair_tie[of x y] by auto
  show ?thesis
  proof (intro conjI)
    show "\<forall>(best :: (string \<times> 'a row_scheme) list) r a.
        map_of best (asin r) = Some a \<and> \<not> beats r a \<longrightarrow> dedupe_step best r = best"
      using 1 by blast
    show "\<forall>r a. representative rows (asin r) = Some a \<and> \<not> beats r a \<longrightarrow>
        dedupe_by_asin (rows @ [r]) = dedupe_by_asin rows"
      using 2 by blast
    show "\<forall>r\<in>set (dedupe_by_asin rows). \<exists>ys zs.
        filter (\<lambda>x. asin x = asin r) rows = ys @ r # zs \<and>
        (\<forall>y\<in>set ys. beats r y) \<and> (\<forall>z\<in>set zs. \<not> beats z r)"
      using 3 by blast
    show "\<forall>x (y :: 'a row_scheme). asin x = asin y \<and> \<not> beats x y \<and> \<not> beats y x \<longrightarrow>
        dedupe_by_asin [x, y] = [x]"
      using 4 by blast
  qed
qed

theorem dedupe_tie_keeps_first_witness:
  "dedupe_by_asin [row_a, row_b] = [row_a] \<and> dedupe_by_asin [row_b, row_a] = [row_b] \<and>
   dedupe_by_asin ([row_a\<lparr>price_yen := Some 5000\<rparr>] @ [row_b\<lparr>price_yen := Some 5000\<rparr>]) = [row_a\<lparr>price_yen := Some 5000\<rparr>]"
proof -
  have t: "asin row_a = asin row_b \<and> \<not> beats row_a row_b \<and> \<not> beats row_b row_a"
    by (simp add: row_a_def row_b_def beats_def)
  have u: "representative [row_a\<lparr>price_yen := Some 5000\<rparr>] (asin (row_b\<lparr>price_yen := Some 5000\<rparr>)) = Some (row_a\<lparr>price_yen := Some 5000\<rparr>)
     \<and> \<not> beats (row_b\<lparr>price_yen := Some 5000\<rparr>) (row_a\<lparr>price_yen := Some 5000\<rparr>)"
    by (simp add: representative_def dedupe_by_asin_def dedupe_step_def row_a_def row_b_def beats_def)
  have v: "dedupe_by_asin [row_a\<lparr>price_yen := Some 5000\<rparr>] = [row_a\<lparr>price_yen := Some 5000\<rparr>]"
    by (simp add: dedupe_by_asin_def dedupe_step_def)
  note th = dedupe_tie_keeps_first[of "[row_a\<lparr>price_yen := Some 5000\<rparr>]"]
  have a: "dedupe_by_asin [row_a, row_b] = [row_a]"
    using th[THEN conjunct2, THEN conjunct2, THEN conjunct2, rule_format, of row_a row_b] t by simp
  have b: "dedupe_by_asin [row_b, row_a] = [row_b]"
    using th[THEN conjunct2, THEN conjunct2, THEN conjunct2, rule_format, of row_b row_a] t by simp
  have c: "dedupe_by_asin ([row_a\<lparr>price_yen := Some 5000\<rparr>] @ [row_b\<lparr>price_yen := Some 5000\<rparr>]) =
      dedupe_by_asin [row_a\<lparr>price_yen := Some 5000\<rparr>]"
    using th[THEN conjunct2, THEN conjunct1, rule_format, OF u] .
  show ?thesis using a b c v by simp
qed

section \<open>Retrieval: proofs\<close>

lemma enum4: "zip [1 ..< Suc (length default_sleep_retry)] default_sleep_retry = [(1,0),(2,2),(3,5),(4,9)]"
  by (simp add: default_sleep_retry_def upt_rec)

lemma final_result_retryable:
  "retryable oc \<Longrightarrow> \<exists>e. final_result oc = Inl e"
  by (cases oc) (auto simp: retryable_def final_result_def)

lemma fetch_step:
  "fetch_loop env ((i, w) # rest) le tr =
     (if retryable (env i)
      then fetch_loop env rest (Some (case final_result (env i) of Inl e \<Rightarrow> e | Inr b \<Rightarrow> TypeError))
             ((if w \<noteq> 0 then tr @ [RetrySleep w] else tr) @ [FetchAttempt i])
      else (final_result (env i), (if w \<noteq> 0 then tr @ [RetrySleep w] else tr) @ [FetchAttempt i]))"
  by (cases "env i")
     (auto simp: retryable_def final_result_def retry_statuses_def Let_def split: option.splits)

lemma final_result_retryable_eq:
  "retryable oc \<Longrightarrow> Inl (case final_result oc of Inl e \<Rightarrow> e | Inr b \<Rightarrow> TypeError) = final_result oc"
  by (cases oc) (auto simp: retryable_def final_result_def)

lemma fetch_html_policy: "fetch_html env default_sleep_retry = fetch_policy env"
proof -
  have "fetch_loop env [(1,0),(2,2),(3,5),(4,9)] None [] = fetch_policy env"
    by (simp only: fetch_step fetch_loop.simps(1) fetch_policy_def schedule_def)
       (simp add: final_result_retryable_eq)
  then show ?thesis by (simp only: fetch_html_def enum4)
qed

subsection \<open>Claim C6: the retry policy of \<open>fetch_html\<close>\<close>

text \<open>
  Claim C6.  With the default \<open>sleep_retry = (0, 2, 5, 9)\<close> and for every sequence of
  outcomes, \<open>fetch_html\<close> behaves as the policy of the specification: it makes
  \<open>n \<le> 4\<close> attempts; its sleeps and attempts are exactly the first \<open>n\<close> attempts of
  the schedule attempt 1, sleep 2, attempt 2, sleep 5, attempt 3, sleep 9, attempt 4 (no
  sleep before the first attempt); every attempt before the last was a retryable failure
  (status 408, 429, 503 or 504, or an exception of the transport); an attempt that succeeds
  or fails with any other HTTP error status ends the run at once with that result; and
  when all four attempts fail retryably the failure of the fourth is raised.
\<close>

theorem fetch_html_retry_policy:
  "fetch_html env default_sleep_retry = fetch_policy env \<and>
   attempts (snd (fetch_html env default_sleep_retry)) \<le> 4 \<and>
   (\<exists>n. 1 \<le> n \<and> n \<le> 4 \<and>
        snd (fetch_html env default_sleep_retry) = schedule n \<and>
        attempts (snd (fetch_html env default_sleep_retry)) = n \<and>
        (\<forall>i. 1 \<le> i \<and> i < n \<longrightarrow> retryable (env i)) \<and>
        fst (fetch_html env default_sleep_retry) = final_result (env n) \<and>
        (n < 4 \<longrightarrow> \<not> retryable (env n)))"
proof -
  have small: "i = 1 \<or> i = 2 \<or> i = 3" if "1 \<le> i" "i < 4" for i :: nat
    using that by arith
  have a: "attempts (schedule 1) = 1" "attempts (schedule 2) = 2"
          "attempts (schedule 3) = 3" "attempts (schedule 4) = 4"
    by (simp_all add: attempts_def schedule_def)
  have ex: "\<exists>n. 1 \<le> n \<and> n \<le> 4 \<and> snd (fetch_policy env) = schedule n \<and>
        attempts (snd (fetch_policy env)) = n \<and>
        (\<forall>i. 1 \<le> i \<and> i < n \<longrightarrow> retryable (env i)) \<and>
        fst (fetch_policy env) = final_result (env n) \<and>
        (n < 4 \<longrightarrow> \<not> retryable (env n))"
  proof (cases "retryable (env 1)")
    case False
    then show ?thesis by (intro exI[of _ 1]) (simp add: fetch_policy_def a del: One_nat_def)
  next
    case r1: True
    show ?thesis
    proof (cases "retryable (env 2)")
      case False
      have "\<forall>i. 1 \<le> i \<and> i < (2::nat) \<longrightarrow> retryable (env i)"
      proof (intro allI impI)
        fix i :: nat assume "1 \<le> i \<and> i < 2"
        then have "i = 1" by arith
        with r1 show "retryable (env i)" by auto
      qed
      with r1 False show ?thesis by (intro exI[of _ 2]) (simp add: fetch_policy_def a del: One_nat_def)
    next
      case r2: True
      show ?thesis
      proof (cases "retryable (env 3)")
        case False
        have "\<forall>i. 1 \<le> i \<and> i < (3::nat) \<longrightarrow> retryable (env i)"
        proof (intro allI impI)
          fix i :: nat assume "1 \<le> i \<and> i < 3"
          then have "i = 1 \<or> i = 2" by arith
          with r1 r2 show "retryable (env i)" by auto
        qed
        with r1 r2 False show ?thesis by (intro exI[of _ 3]) (simp add: fetch_policy_def a del: One_nat_def)
      next
        case r3: True
        have "\<forall>i. 1 \<le> i \<and> i < (4::nat) \<longrightarrow> retryable (env i)"
          using r1 r2 r3 small by blast
        with r1 r2 r3 show ?thesis by (intro exI[of _ 4]) (simp add: fetch_policy_def a del: One_nat_def)
      qed
    qed
  qed
  have le: "attempts (snd (fetch_policy env)) \<le> 4"
    by (simp add: fetch_policy_def a del: One_nat_def)
  show ?thesis unfolding fetch_html_policy using ex le by simp
qed


theorem fetch_html_retry_policy_witness:
  "fetch_html env_mixed default_sleep_retry =
     (Inl (HTTPError (Some 404)),
      [FetchAttempt 1, RetrySleep 2, FetchAttempt 2, RetrySleep 5, FetchAttempt 3]) \<and>
   fetch_html env_throttled default_sleep_retry =
     (Inl (HTTPError (Some 429)),
      [FetchAttempt 1, RetrySleep 2, FetchAttempt 2, RetrySleep 5, FetchAttempt 3,
       RetrySleep 9, FetchAttempt 4]) \<and>
   attempts (snd (fetch_html env_throttled default_sleep_retry)) = 4"
  using fetch_html_retry_policy[of env_mixed] fetch_html_retry_policy[of env_throttled]
  by (simp add: fetch_policy_def retryable_def final_result_def schedule_def attempts_def
        env_mixed_def env_throttled_def)


end
